theory Spec2Isabelle
  imports Main "HOL-Library.AList"
begin

section \<open>Python strings\<close>

text \<open>
  A Python \<open>str\<close> is a sequence of Unicode code points. The header syntax of the
  extractor uses the code point U+2219 (the bullet operator that marks a version), which
  is outside the 8-bit range of \<^typ>\<open>char\<close>, so a string is modelled as the list of its
  code points. \<open>py\<close> embeds an ASCII literal.
\<close>

type_synonym pystr = "nat list"

definition py :: "string \<Rightarrow> pystr" where
  "py s = map of_char s"

text \<open>
  \<open>str.isspace\<close> on one code point: the characters that \<open>str.strip()\<close> with no argument
  removes.
\<close>

definition py_isspace :: "nat \<Rightarrow> bool" where
  "py_isspace c \<longleftrightarrow>
     (9 \<le> c \<and> c \<le> 13) \<or> (28 \<le> c \<and> c \<le> 32) \<or> c = 133 \<or> c = 160 \<or> c = 5760 \<or>
     (8192 \<le> c \<and> c \<le> 8202) \<or> c = 8232 \<or> c = 8233 \<or> c = 8239 \<or> c = 8287 \<or> c = 12288"

definition py_strip :: "pystr \<Rightarrow> pystr" where
  "py_strip s = rev (dropWhile py_isspace (rev (dropWhile py_isspace s)))"

definition startswith :: "pystr \<Rightarrow> pystr \<Rightarrow> bool" where
  "startswith s p \<longleftrightarrow> take (length p) s = p"

definition endswith :: "pystr \<Rightarrow> pystr \<Rightarrow> bool" where
  "endswith s p \<longleftrightarrow> length p \<le> length s \<and> drop (length s - length p) s = p"

text \<open>\<open>s.split(sep)[0]\<close> for a non-empty \<open>sep\<close>: the text before its leftmost occurrence.\<close>

fun split_first :: "pystr \<Rightarrow> pystr \<Rightarrow> pystr" where
  "split_first sep [] = []"
| "split_first sep (c # cs) =
     (if startswith (c # cs) sep then [] else c # split_first sep cs)"

text \<open>\<open>s.replace('\\', '/')\<close>: code point 92 becomes code point 47.\<close>

definition replace_backslash :: "pystr \<Rightarrow> pystr" where
  "replace_backslash s = map (\<lambda>c. if c = 92 then 47 else c) s"

section \<open>The artifact extractor\<close>

text \<open>
  \<open>FILE_PATH_PATTERN.match(line)\<close> for the pattern \<open>^\*\*([^*]+?)\*\*\<close>: the line begins
  with two asterisks, then a non-empty run of characters other than the asterisk, then
  two asterisks. The class \<open>[^*]\<close> cannot cross an asterisk, so the group is the whole run
  up to the first asterisk, and the match fails unless a second asterisk follows it.
  The result is group 1.
\<close>

definition FILE_PATH_PATTERN :: "pystr \<Rightarrow> pystr option" where
  "FILE_PATH_PATTERN line =
     (if startswith line [42, 42] then
        (let rest = drop 2 line;
             grp = takeWhile (\<lambda>c. c \<noteq> 42) rest
         in if grp \<noteq> [] \<and> startswith (dropWhile (\<lambda>c. c \<noteq> 42) rest) [42, 42]
            then Some grp else None)
      else None)"

text \<open>
  \<open>CODE_BLOCK_PATTERN.match(line)\<close> for the pattern \<open>^```(\w*)\<close>: the group may be empty,
  so the match succeeds exactly when the line begins with three backticks.
\<close>

definition CODE_BLOCK_PATTERN :: "pystr \<Rightarrow> bool" where
  "CODE_BLOCK_PATTERN line \<longleftrightarrow> startswith line [96, 96, 96]"

text \<open>
  The candidate path of a raw header: the text before the version mark U+2219, stripped,
  then the text before the first \<open>" - "\<close>, stripped.
\<close>

definition file_path_str :: "pystr \<Rightarrow> pystr" where
  "file_path_str raw_header =
     (let header_text = py_strip (split_first [8729] raw_header)
      in py_strip (split_first [32, 45, 32] header_text))"

definition is_valid_path :: "pystr \<Rightarrow> bool" where
  "is_valid_path p \<longleftrightarrow> 46 \<in> set p \<or> 47 \<in> set p \<or> 92 \<in> set p"

text \<open>A dictionary that keeps insertion order: an association list with distinct keys.\<close>

type_synonym artifacts = "(pystr \<times> pystr) list"

text \<open>
  The search for the opening fence, from line \<open>j\<close>: the index of the first line that
  starts a code block, unless a header candidate or the end of the document comes first.
\<close>

function find_code_block :: "pystr list \<Rightarrow> nat \<Rightarrow> nat option" where
  "find_code_block lines j =
     (if j < length lines then
        (let code_line = py_strip (lines ! j)
         in if CODE_BLOCK_PATTERN code_line then Some j
            else if FILE_PATH_PATTERN code_line \<noteq> None then None
            else find_code_block lines (j + 1))
      else None)"
  by pat_completeness auto

termination
  by (relation "measure (\<lambda>(lines, j). length lines - j)") auto

declare find_code_block.simps [simp del]

text \<open>
  The collection of the block's lines, from line \<open>k\<close>, into \<open>code_content\<close>: it stops at
  the first line whose stripped form starts with three backticks, or at the end of the
  document, and returns the collected lines and the index where it stopped.
\<close>

function collect_code :: "pystr list \<Rightarrow> nat \<Rightarrow> pystr list \<Rightarrow> pystr list \<times> nat" where
  "collect_code lines k code_content =
     (if k < length lines \<and> \<not> startswith (py_strip (lines ! k)) [96, 96, 96]
      then collect_code lines (k + 1) (code_content @ [lines ! k])
      else (code_content, k))"
  by pat_completeness auto

termination
  by (relation "measure (\<lambda>(lines, k, acc). length lines - k)") auto

declare collect_code.simps [simp del]

text \<open>
  One pass of the body of the outer loop at line \<open>i < len(lines)\<close>: the next value of
  \<open>i\<close> (after the final \<open>i += 1\<close>) and the dictionary.
\<close>

definition scan_step :: "pystr list \<Rightarrow> nat \<Rightarrow> artifacts \<Rightarrow> nat \<times> artifacts" where
  "scan_step lines i arts =
     (case FILE_PATH_PATTERN (py_strip (lines ! i)) of
        None \<Rightarrow> (i + 1, arts)
      | Some raw_header \<Rightarrow>
          if \<not> is_valid_path (file_path_str raw_header) then (i + 1, arts)
          else
            (case find_code_block lines (i + 1) of
               None \<Rightarrow> (i + 1, arts)
             | Some j \<Rightarrow>
                 (let (code_content, k) = collect_code lines (j + 1) [];
                      normalized_path = replace_backslash (file_path_str raw_header)
                  in (k + 1, AList.update normalized_path (concat code_content) arts))))"

lemma find_code_block_gt: "find_code_block lines j = Some r \<Longrightarrow> j \<le> r \<and> r < length lines"
proof (induction lines j rule: find_code_block.induct)
  case (1 lines j)
  note eq = find_code_block.simps[of lines j]
  from "1.prems" eq have lt: "j < length lines"
    by (simp split: if_splits)
  show ?case
  proof (cases "CODE_BLOCK_PATTERN (py_strip (lines ! j))")
    case True
    with "1.prems" eq lt show ?thesis by simp
  next
    case False
    with "1.prems" eq lt have nh: "FILE_PATH_PATTERN (py_strip (lines ! j)) = None"
      and rec: "find_code_block lines (j + 1) = Some r"
      by (simp_all add: Let_def split: if_splits)
    from "1.IH"[OF lt refl False _ rec] nh have "j + 1 \<le> r \<and> r < length lines"
      by simp
    then show ?thesis by simp
  qed
qed

lemma collect_code_ge: "collect_code lines k acc = (cc, r) \<Longrightarrow> k \<le> r"
proof (induction lines k acc rule: collect_code.induct)
  case (1 lines k code_content)
  note eq = collect_code.simps[of lines k code_content]
  show ?case
  proof (cases "k < length lines \<and> \<not> startswith (py_strip (lines ! k)) [96, 96, 96]")
    case True
    with "1.prems" eq have "collect_code lines (k + 1) (code_content @ [lines ! k]) = (cc, r)"
      by simp
    from "1.IH"[OF True this] show ?thesis by simp
  next
    case False
    with "1.prems" eq show ?thesis by simp
  qed
qed

lemma scan_step_advances: "scan_step lines i arts = (i', arts') \<Longrightarrow> i < i'"
  unfolding scan_step_def
  by (auto split: option.splits if_splits prod.splits
      dest!: find_code_block_gt collect_code_ge)

text \<open>The outer loop \<open>while i < len(lines)\<close>, from line \<open>i\<close> with the dictionary so far.\<close>

function scan :: "pystr list \<Rightarrow> nat \<Rightarrow> artifacts \<Rightarrow> artifacts" where
  "scan lines i arts =
     (if i < length lines then
        (case scan_step lines i arts of (i', arts') \<Rightarrow> scan lines i' arts')
      else arts)"
  by pat_completeness auto

termination
proof (relation "measure (\<lambda>(lines, i, arts). length lines - i)", goal_cases)
  case 1
  show ?case by simp
next
  case (2 lines i arts x1 x2)
  from 2 have e: "scan_step lines i arts = (x1, x2)" by simp
  from scan_step_advances[OF e] have "i < x1" .
  with 2(1) show ?case by (simp add: e)
qed

declare scan.simps [simp del]

text \<open>
  What \<open>open(markdown_path)\<close> and \<open>f.readlines()\<close> give: the lines of the document, each
  with its line terminator as read, or one of the two exceptions the function catches.
\<close>

datatype read_result = Lines "pystr list" | FileNotFoundError | OtherReadError

datatype diagnostic = Markdown_not_found | Markdown_read_error

text \<open>
  \<open>extract_artifacts_from_markdown\<close>: the dictionary it returns and the error messages it
  prints. (The progress lines it prints for each artifact found are not part of the model.)
\<close>

definition extract_artifacts_from_markdown :: "read_result \<Rightarrow> artifacts \<times> diagnostic list" where
  "extract_artifacts_from_markdown r =
     (case r of
        FileNotFoundError \<Rightarrow> ([], [Markdown_not_found])
      | OtherReadError \<Rightarrow> ([], [Markdown_read_error])
      | Lines lines \<Rightarrow> (scan lines 0 [], []))"

text \<open>
  The guard of \<open>main\<close> after extraction: the run ends with "nothing to do" only when no
  artifact was found and no structure file exists.
\<close>

definition nothing_to_do :: "artifacts \<Rightarrow> bool \<Rightarrow> bool" where
  "nothing_to_do arts yaml_exists \<longleftrightarrow> arts = [] \<and> \<not> yaml_exists"



text \<open>
  The artifact that the loop body inserts at line \<open>i\<close>, if any: the normalized path and
  the content. It is read off the step from the empty dictionary.
\<close>

definition inserted_at :: "pystr list \<Rightarrow> nat \<Rightarrow> (pystr \<times> pystr) option" where
  "inserted_at lines i = (case snd (scan_step lines i []) of [] \<Rightarrow> None | e # _ \<Rightarrow> Some e)"

text \<open>\<open>"\<newline>".join(xs)\<close>, the join that the specification's wording names.\<close>

fun newline_join :: "pystr list \<Rightarrow> pystr" where
  "newline_join [] = []"
| "newline_join [x] = x"
| "newline_join (x # y # ys) = x @ [10] @ newline_join (y # ys)"

text \<open>A line without its terminator, as \<open>str.splitlines\<close> would give it.\<close>

definition chomp :: "pystr \<Rightarrow> pystr" where
  "chomp l = (if l \<noteq> [] \<and> last l = 10 then butlast l else l)"

section \<open>The tree resolver\<close>

text \<open>
  An item of the structure list. A dictionary with the key \<open>directory\<close> is a directory
  (its \<open>children\<close>, the empty list when the key is absent or empty); otherwise one with
  the key \<open>file\<close> is a file, with its optional \<open>content\<close> and \<open>template\<close> (strings,
  \<open>None\<close> when the key is absent); anything else is passed over.
\<close>

datatype node =
    Directory pystr "node list"
  | File pystr "pystr option" "pystr option"
  | Other

datatype template_read = Template_text pystr | Template_not_found | Template_error

text \<open>
  The variable \<open>source\<close>: \<open>"empty"\<close>, \<open>"artifact"\<close>, \<open>"artifact (matched on 'key')"\<close>,
  \<open>"YAML content"\<close>, \<open>"template 'name'"\<close> and \<open>"template (not found)"\<close>.
\<close>

datatype source =
    Empty
  | Artifact
  | Artifact_matched pystr
  | YAML_content
  | Template pystr
  | Template_missing

text \<open>
  The loop \<open>for key in artifacts\<close> of the suffix match: the first key, in the order of the
  dictionary, that the path ends with at a segment boundary, and its content.
\<close>

fun suffix_match :: "artifacts \<Rightarrow> pystr \<Rightarrow> (pystr \<times> pystr) option" where
  "suffix_match [] relative_path_str = None"
| "suffix_match ((key, v) # rest) relative_path_str =
     (if endswith relative_path_str key then
        (if relative_path_str = key \<or> endswith relative_path_str (47 # key)
         then Some (key, v)
         else suffix_match rest relative_path_str)
      else suffix_match rest relative_path_str)"

text \<open>The artifact lookup: \<open>content\<close> (\<open>None\<close> as in Python) and \<open>source\<close>.\<close>

definition artifact_lookup :: "artifacts \<Rightarrow> pystr \<Rightarrow> pystr option \<times> source" where
  "artifact_lookup arts relative_path_str =
     (case map_of arts relative_path_str of
        Some c \<Rightarrow> (Some c, Artifact)
      | None \<Rightarrow>
          (case suffix_match arts relative_path_str of
             Some (key, c) \<Rightarrow> (Some c, Artifact_matched key)
           | None \<Rightarrow> (None, Empty)))"

text \<open>
  The fallback, entered when \<open>content is None\<close>: the item's \<open>content\<close>, else its
  \<open>template\<close> read through \<open>read_template\<close> (the file system).
\<close>

definition fallback_content ::
  "(pystr \<Rightarrow> template_read) \<Rightarrow> pystr option \<Rightarrow> pystr option \<Rightarrow> pystr option \<times> source \<Rightarrow>
   pystr option \<times> source" where
  "fallback_content read_template item_content item_template cs =
     (case fst cs of
        Some c \<Rightarrow> cs
      | None \<Rightarrow>
          (case item_content of
             Some c \<Rightarrow> (Some c, YAML_content)
           | None \<Rightarrow>
               (case item_template of
                  None \<Rightarrow> cs
                | Some t \<Rightarrow>
                    (case read_template t of
                       Template_text c \<Rightarrow> (Some c, Template t)
                     | Template_not_found \<Rightarrow> (fst cs, Template_missing)
                     | Template_error \<Rightarrow> cs))))"

record resolved =
  relative_path :: pystr
  content :: "pystr option"
  source :: source

text \<open>
  The resolution of one file item at \<open>relative_path_str\<close>: what is written and reported,
  and the list \<open>empty_files\<close> after \<open>if source == "empty": empty_files.append(...)\<close>.
\<close>

definition resolve_file ::
  "artifacts \<Rightarrow> (pystr \<Rightarrow> template_read) \<Rightarrow> pystr \<Rightarrow> pystr option \<Rightarrow> pystr option \<Rightarrow>
   pystr list \<Rightarrow> resolved \<times> pystr list" where
  "resolve_file arts read_template relative_path_str item_content item_template empty_files =
     (let cs = fallback_content read_template item_content item_template
                 (artifact_lookup arts relative_path_str)
      in (\<lparr>relative_path = relative_path_str, content = fst cs, source = snd cs\<rparr>,
          if snd cs = Empty then empty_files @ [relative_path_str] else empty_files))"

text \<open>\<open>f.write(content)\<close> under \<open>if content:\<close>: the text of the file created.\<close>

definition written_text :: "resolved \<Rightarrow> pystr" where
  "written_text r = (case content r of None \<Rightarrow> [] | Some c \<Rightarrow> c)"

text \<open>
  The host: \<open>path_str names\<close> is \<open>str(p.relative_to(base_dir))\<close> for the path \<open>p\<close> reached
  from \<open>base_dir\<close> through \<open>names\<close> (\<open>None\<close> when \<open>relative_to\<close> raises), \<open>make_dir\<close> tells
  whether \<open>mkdir\<close> succeeds there, and \<open>read_template\<close> reads a template file.
\<close>

record host =
  path_str :: "pystr list \<Rightarrow> pystr option"
  make_dir :: "pystr list \<Rightarrow> bool"
  read_template :: "pystr \<Rightarrow> template_read"

datatype error = Not_relative "pystr list" | Mkdir_failed "pystr list"

record walk =
  empty_files :: "pystr list"
  created :: "resolved list"

text \<open>
  \<open>create_project_from_yaml\<close>: \<open>current_path\<close> is the list of directory names from
  \<open>base_dir\<close>. An exception leaves the function with the lists as they were at that point
  (\<open>Inl\<close>); a failure to write a file is caught inside and changes neither list.
\<close>

fun create_project_from_yaml ::
    "host \<Rightarrow> artifacts \<Rightarrow> pystr list \<Rightarrow> node list \<Rightarrow> walk \<Rightarrow> (error \<times> walk) + walk"
  and create_item ::
    "host \<Rightarrow> artifacts \<Rightarrow> pystr list \<Rightarrow> node \<Rightarrow> walk \<Rightarrow> (error \<times> walk) + walk" where
  "create_project_from_yaml h arts current_path [] w = Inr w"
| "create_project_from_yaml h arts current_path (item # structure) w =
     (case create_item h arts current_path item w of
        Inl e \<Rightarrow> Inl e
      | Inr w' \<Rightarrow> create_project_from_yaml h arts current_path structure w')"
| "create_item h arts current_path (Directory dir_name children) w =
     (let new_path = current_path @ [dir_name]
      in case path_str h new_path of
           None \<Rightarrow> Inl (Not_relative new_path, w)
         | Some shown \<Rightarrow>
             if \<not> make_dir h new_path then Inl (Mkdir_failed new_path, w)
             else create_project_from_yaml h arts new_path children w)"
| "create_item h arts current_path (File file_name item_content item_template) w =
     (let file_path = current_path @ [file_name]
      in case path_str h file_path of
           None \<Rightarrow> Inl (Not_relative file_path, w)
         | Some rel \<Rightarrow>
             (let (r, ef) = resolve_file arts (read_template h) (replace_backslash rel)
                              item_content item_template (empty_files w)
              in Inr \<lparr>empty_files = ef, created = created w @ [r]\<rparr>))"
| "create_item h arts current_path Other w = Inr w"

text \<open>The lists after the call, whether it returned or raised.\<close>

definition lists_after :: "(error \<times> walk) + walk \<Rightarrow> walk" where
  "lists_after r = (case r of Inl (e, w) \<Rightarrow> w | Inr w \<Rightarrow> w)"

section \<open>Example inputs\<close>

text \<open>
  Hosts for the examples: the names of a path are joined by the separator \<open>sep\<close> (47 on
  POSIX, 92 on Windows), and every directory can be created.
\<close>

fun join_names :: "nat \<Rightarrow> pystr list \<Rightarrow> pystr" where
  "join_names sep [] = []"
| "join_names sep [x] = x"
| "join_names sep (x # y # ys) = x @ [sep] @ join_names sep (y # ys)"

definition simple_host :: "nat \<Rightarrow> (pystr \<Rightarrow> template_read) \<Rightarrow> host" where
  "simple_host sep rt = \<lparr>path_str = (\<lambda>names. Some (join_names sep names)),
     make_dir = (\<lambda>names. True), read_template = rt\<rparr>"


text \<open>The round-trip document: one header, one fenced block of one line.\<close>

definition hello_doc :: "pystr list" where
  "hello_doc = [py ''**a/b.txt**\<newline>'', py ''```\<newline>'', py ''hello\<newline>'', py ''```\<newline>'']"

text \<open>A header with prose but no fence before the next header.\<close>

definition two_headers_doc :: "pystr list" where
  "two_headers_doc = [py ''**a.txt**\<newline>'', py ''some text\<newline>'', py ''**b.txt**\<newline>'',
     py ''```\<newline>'', py ''B\<newline>'', py ''```\<newline>'']"

text \<open>Bolded prose that is not a path, with a fenced block right after it.\<close>

definition overview_doc :: "pystr list" where
  "overview_doc = [py ''**Overview**\<newline>'', py ''```\<newline>'', py ''x = 1\<newline>'', py ''```\<newline>'']"

text \<open>A fence that is never closed; the last line has no terminator.\<close>

definition unclosed_doc :: "pystr list" where
  "unclosed_doc = [py ''**a.txt**\<newline>'', py ''```py\<newline>'', py ''x\<newline>'', py ''y'']"



section \<open>Rules for evaluating the model on a given input\<close>

lemmas line_defs = py_def py_strip_def py_isspace_def startswith_def FILE_PATH_PATTERN_def
  CODE_BLOCK_PATTERN_def file_path_str_def is_valid_path_def replace_backslash_def Let_def

lemmas loop_simps = scan.simps scan_step_def find_code_block.simps collect_code.simps

lemmas resolver_defs = resolve_file_def artifact_lookup_def fallback_content_def endswith_def py_def

section \<open>Properties of the scanning loops\<close>

lemma header_not_fence:
  "FILE_PATH_PATTERN l \<noteq> None \<Longrightarrow> \<not> CODE_BLOCK_PATTERN l"
  by (cases l) (auto simp: FILE_PATH_PATTERN_def CODE_BLOCK_PATTERN_def startswith_def split: if_splits)

lemma find_code_block_found:
  assumes "j0 \<le> j" and "j < length lines"
    and "CODE_BLOCK_PATTERN (py_strip (lines ! j))"
    and "\<And>m. j0 \<le> m \<Longrightarrow> m < j \<Longrightarrow>
           \<not> CODE_BLOCK_PATTERN (py_strip (lines ! m)) \<and> FILE_PATH_PATTERN (py_strip (lines ! m)) = None"
  shows "find_code_block lines j0 = Some j"
  using assms
proof (induction "j - j0" arbitrary: j0)
  case 0
  then have "j0 = j" by simp
  with 0 show ?case by (subst find_code_block.simps) simp
next
  case (Suc d)
  then have lt: "j0 < j" by simp
  from Suc.prems(4)[of j0] lt
  have a: "\<not> CODE_BLOCK_PATTERN (py_strip (lines ! j0))"
    and b: "FILE_PATH_PATTERN (py_strip (lines ! j0)) = None" by simp_all
  have "find_code_block lines (j0 + 1) = Some j"
  proof (rule Suc.hyps(1))
    show "d = j - (j0 + 1)" using Suc.hyps(2) by simp
    show "j0 + 1 \<le> j" using lt by simp
    show "j < length lines" by (rule Suc.prems(2))
    show "CODE_BLOCK_PATTERN (py_strip (lines ! j))" by (rule Suc.prems(3))
    fix m assume "j0 + 1 \<le> m" "m < j"
    then show "\<not> CODE_BLOCK_PATTERN (py_strip (lines ! m)) \<and> FILE_PATH_PATTERN (py_strip (lines ! m)) = None"
      using Suc.prems(4)[of m] by simp
  qed
  moreover have "j0 < length lines" using lt Suc.prems(2) by simp
  ultimately show ?case using a b
    by (simp add: find_code_block.simps[of lines j0])
qed

lemma find_code_block_none:
  assumes "j0 \<le> m" and "m \<le> length lines"
    and "\<And>n. j0 \<le> n \<Longrightarrow> n < m \<Longrightarrow> \<not> CODE_BLOCK_PATTERN (py_strip (lines ! n))"
    and "m = length lines \<or> FILE_PATH_PATTERN (py_strip (lines ! m)) \<noteq> None"
  shows "find_code_block lines j0 = None"
  using assms
proof (induction "m - j0" arbitrary: j0)
  case 0
  then have e: "j0 = m" by simp
  show ?case
  proof (cases "m = length lines")
    case True
    with e show ?thesis by (subst find_code_block.simps) simp
  next
    case False
    with "0.prems"(4) have h: "FILE_PATH_PATTERN (py_strip (lines ! m)) \<noteq> None" by simp
    from header_not_fence[OF h] h e show ?thesis
      by (subst find_code_block.simps) simp
  qed
next
  case (Suc d)
  then have lt: "j0 < m" by simp
  from Suc.prems(3)[of j0] lt
  have a: "\<not> CODE_BLOCK_PATTERN (py_strip (lines ! j0))" by simp
  have "find_code_block lines (j0 + 1) = None"
  proof (rule Suc.hyps(1))
    show "d = m - (j0 + 1)" using Suc.hyps(2) by simp
    show "j0 + 1 \<le> m" using lt by simp
    show "m \<le> length lines" by (rule Suc.prems(2))
    show "m = length lines \<or> FILE_PATH_PATTERN (py_strip (lines ! m)) \<noteq> None" by (rule Suc.prems(4))
    fix n assume "j0 + 1 \<le> n" "n < m"
    then show "\<not> CODE_BLOCK_PATTERN (py_strip (lines ! n))"
      using Suc.prems(3)[of n] by simp
  qed
  then show ?case using a
    by (simp add: find_code_block.simps[of lines j0])
qed

lemma collect_code_span:
  assumes "k0 \<le> k" and "k \<le> length lines"
    and "\<And>m. k0 \<le> m \<Longrightarrow> m < k \<Longrightarrow> \<not> startswith (py_strip (lines ! m)) [96, 96, 96]"
    and "k = length lines \<or> startswith (py_strip (lines ! k)) [96, 96, 96]"
  shows "collect_code lines k0 acc = (acc @ map (nth lines) [k0..<k], k)"
  using assms
proof (induction "k - k0" arbitrary: k0 acc)
  case 0
  then have "k0 = k" by simp
  with "0.prems"(4) show ?case
    by (subst collect_code.simps) auto
next
  case (Suc d)
  then have lt: "k0 < k" by simp
  from Suc.prems(3)[of k0] lt
  have a: "\<not> startswith (py_strip (lines ! k0)) [96, 96, 96]" by simp
  have "collect_code lines (k0 + 1) (acc @ [lines ! k0])
        = ((acc @ [lines ! k0]) @ map (nth lines) [k0 + 1..<k], k)"
  proof (rule Suc.hyps(1))
    show "d = k - (k0 + 1)" using Suc.hyps(2) by simp
    show "k0 + 1 \<le> k" using lt by simp
    show "k \<le> length lines" by (rule Suc.prems(2))
    show "k = length lines \<or> startswith (py_strip (lines ! k)) [96, 96, 96]" by (rule Suc.prems(4))
    fix m assume "k0 + 1 \<le> m" "m < k"
    then show "\<not> startswith (py_strip (lines ! m)) [96, 96, 96]"
      using Suc.prems(3)[of m] by simp
  qed
  moreover have "k0 < length lines" using lt Suc.prems(2) by simp
  ultimately show ?case using a lt
    by (simp add: collect_code.simps[of lines k0 acc] upt_conv_Cons)
qed

lemma scan_step_block:
  assumes "FILE_PATH_PATTERN (py_strip (lines ! i)) = Some raw"
    and "is_valid_path (file_path_str raw)"
    and "i < j" and "j < length lines"
    and "CODE_BLOCK_PATTERN (py_strip (lines ! j))"
    and "\<And>m. i < m \<Longrightarrow> m < j \<Longrightarrow>
           \<not> CODE_BLOCK_PATTERN (py_strip (lines ! m)) \<and> FILE_PATH_PATTERN (py_strip (lines ! m)) = None"
    and "j < k" and "k \<le> length lines"
    and "\<And>m. j < m \<Longrightarrow> m < k \<Longrightarrow> \<not> startswith (py_strip (lines ! m)) [96, 96, 96]"
    and "k = length lines \<or> startswith (py_strip (lines ! k)) [96, 96, 96]"
  shows "scan_step lines i arts =
           (k + 1, AList.update (replace_backslash (file_path_str raw))
                     (concat (map (nth lines) [j + 1..<k])) arts)"
proof -
  have f: "find_code_block lines (i + 1) = Some j"
    by (rule find_code_block_found) (use assms in auto)
  have c: "collect_code lines (j + 1) [] = ([] @ map (nth lines) [j + 1..<k], k)"
    by (rule collect_code_span) (use assms in auto)
  show ?thesis
    unfolding scan_step_def using assms(1,2) f c by simp
qed

lemma scan_step_no_block:
  assumes "i < m" and "m \<le> length lines"
    and "\<And>n. i < n \<Longrightarrow> n < m \<Longrightarrow> \<not> CODE_BLOCK_PATTERN (py_strip (lines ! n))"
    and "m = length lines \<or> FILE_PATH_PATTERN (py_strip (lines ! m)) \<noteq> None"
  shows "scan_step lines i arts = (i + 1, arts)"
proof -
  have f: "find_code_block lines (i + 1) = None"
    by (rule find_code_block_none[where m = m]) (use assms in auto)
  show ?thesis
    unfolding scan_step_def using f by (simp split: option.splits)
qed

lemma scan_unfold:
  "i < length lines \<Longrightarrow> scan_step lines i arts = (i', arts') \<Longrightarrow> scan lines i arts = scan lines i' arts'"
  by (simp add: scan.simps[of lines i arts])

lemma scan_done: "length lines \<le> i \<Longrightarrow> scan lines i arts = arts"
  by (simp add: scan.simps[of lines i arts])

lemma map_nth_from: "map (nth xs) [m..<length xs] = drop m xs"
proof -
  have "map (nth xs) [m..<length xs] = map (nth xs) (drop m [0..<length xs])"
    by (simp add: drop_upt)
  also have "\<dots> = drop m (map (nth xs) [0..<length xs])"
    by (simp add: drop_map)
  finally show ?thesis by (simp add: map_nth)
qed

lemma replace_backslash_no_backslash: "92 \<notin> set (replace_backslash s)"
  by (auto simp: replace_backslash_def)

lemma replace_backslash_valid:
  "is_valid_path s \<Longrightarrow> 46 \<in> set (replace_backslash s) \<or> 47 \<in> set (replace_backslash s)"
  unfolding is_valid_path_def replace_backslash_def
  by (auto simp: image_iff)

lemma scan_step_keys:
  assumes "scan_step lines i arts = (i', arts')"
  shows "fst ` set arts' \<subseteq> fst ` set arts \<union>
           {p. (46 \<in> set p \<or> 47 \<in> set p) \<and> 92 \<notin> set p}"
proof (cases "arts' = arts")
  case True
  then show ?thesis by auto
next
  case False
  with assms obtain raw c where v: "is_valid_path (file_path_str raw)"
    and a: "arts' = AList.update (replace_backslash (file_path_str raw)) c arts"
    unfolding scan_step_def
    by (auto split: option.splits if_splits prod.splits)
  from replace_backslash_valid[OF v] replace_backslash_no_backslash[of "file_path_str raw"]
  show ?thesis unfolding a by (auto simp: dom_update)
qed

lemma scan_keys:
  assumes "\<And>k. k \<in> fst ` set arts \<Longrightarrow> Q k"
    and "\<And>p. (46 \<in> set p \<or> 47 \<in> set p) \<and> 92 \<notin> set p \<Longrightarrow> Q p"
    and "k \<in> fst ` set (scan lines i arts)"
  shows "Q k"
  using assms
proof (induction lines i arts rule: scan.induct)
  case (1 lines i arts)
  show ?case
  proof (cases "i < length lines")
    case False
    with "1.prems"(3) have "k \<in> fst ` set arts" by (simp add: scan_done)
    then show ?thesis by (rule "1.prems"(1))
  next
    case True
    obtain i' arts' where st: "scan_step lines i arts = (i', arts')"
      by (cases "scan_step lines i arts")
    from scan_unfold[OF True st] "1.prems"(3)
    have mem: "k \<in> fst ` set (scan lines i' arts')" by simp
    show ?thesis
    proof (rule "1.IH"[OF True st[symmetric] _ "1.prems"(2) mem])
      fix k' assume "k' \<in> fst ` set arts'"
      with scan_step_keys[OF st]
      have "k' \<in> fst ` set arts \<or> ((46 \<in> set k' \<or> 47 \<in> set k') \<and> 92 \<notin> set k')" by auto
      then show "Q k'" using "1.prems"(1,2) by blast
    qed
  qed
qed

lemma hello_doc_scan: "scan hello_doc 0 [] = [(py ''a/b.txt'', py ''hello\<newline>'')]"
  by (simp add: hello_doc_def loop_simps line_defs)


lemma inserted_at_block:
  assumes "FILE_PATH_PATTERN (py_strip (lines ! i)) = Some raw"
    and "is_valid_path (file_path_str raw)"
    and "i < j" and "j < length lines"
    and "CODE_BLOCK_PATTERN (py_strip (lines ! j))"
    and "\<And>m. i < m \<Longrightarrow> m < j \<Longrightarrow>
           \<not> CODE_BLOCK_PATTERN (py_strip (lines ! m)) \<and> FILE_PATH_PATTERN (py_strip (lines ! m)) = None"
    and "j < k" and "k \<le> length lines"
    and "\<And>m. j < m \<Longrightarrow> m < k \<Longrightarrow> \<not> startswith (py_strip (lines ! m)) [96, 96, 96]"
    and "k = length lines \<or> startswith (py_strip (lines ! k)) [96, 96, 96]"
  shows "inserted_at lines i =
           Some (replace_backslash (file_path_str raw), concat (map (nth lines) [j + 1..<k]))"
proof -
  have "scan_step lines i [] =
           (k + 1, AList.update (replace_backslash (file_path_str raw))
                     (concat (map (nth lines) [j + 1..<k])) [])"
    by (rule scan_step_block) (use assms in auto)
  then show ?thesis by (simp add: inserted_at_def)
qed




section \<open>Properties of the lookup and of the traversal\<close>

lemma endswith_append: "endswith s p \<longleftrightarrow> (\<exists>q. s = q @ p)"
proof
  assume "endswith s p"
  then have "s = take (length s - length p) s @ p"
    unfolding endswith_def by (metis append_take_drop_id)
  then show "\<exists>q. s = q @ p" ..
next
  assume "\<exists>q. s = q @ p"
  then show "endswith s p" by (auto simp: endswith_def)
qed

lemma suffix_match_sound:
  "suffix_match arts R = Some (K, c) \<Longrightarrow>
     (K, c) \<in> set arts \<and> (\<exists>P. R = P @ K \<and> (P = [] \<or> last P = 47))"
proof (induction arts)
  case Nil
  then show ?case by simp
next
  case (Cons a arts)
  obtain key v where a: "a = (key, v)" by (cases a)
  show ?case
  proof (cases "endswith R key \<and> (R = key \<or> endswith R (47 # key))")
    case True
    with Cons.prems a have e: "K = key" "c = v" by auto
    from True have "R = key \<or> endswith R (47 # key)" by simp
    then have "\<exists>P. R = P @ key \<and> (P = [] \<or> last P = 47)"
    proof
      assume "R = key"
      then have "R = [] @ key \<and> ([] = [] \<or> last [] = (47::nat))" by simp
      then show ?thesis by blast
    next
      assume "endswith R (47 # key)"
      then obtain q where "R = q @ 47 # key" by (auto simp: endswith_append)
      then have "R = (q @ [47]) @ key \<and> (q @ [47] = [] \<or> last (q @ [47]) = (47::nat))" by simp
      then show ?thesis by blast
    qed
    with e a show ?thesis by simp
  next
    case False
    with Cons.prems a have "suffix_match arts R = Some (K, c)" by (auto split: if_splits)
    from Cons.IH[OF this] show ?thesis by auto
  qed
qed

lemma suffix_match_first:
  "suffix_match arts R = None \<longleftrightarrow>
     (\<forall>(K, c) \<in> set arts. \<not> (\<exists>P. R = P @ K \<and> (P = [] \<or> last P = 47)))"
proof (induction arts)
  case Nil
  then show ?case by simp
next
  case (Cons a arts)
  obtain key v where a: "a = (key, v)" by (cases a)
  have "(endswith R key \<and> (R = key \<or> endswith R (47 # key)))
        \<longleftrightarrow> (\<exists>P. R = P @ key \<and> (P = [] \<or> last P = 47))"
  proof
    assume "endswith R key \<and> (R = key \<or> endswith R (47 # key))"
    then have "suffix_match [(key, v)] R = Some (key, v)" by simp
    from suffix_match_sound[OF this] show "\<exists>P. R = P @ key \<and> (P = [] \<or> last P = 47)" by simp
  next
    assume "\<exists>P. R = P @ key \<and> (P = [] \<or> last P = 47)"
    then obtain P where P: "R = P @ key" "P = [] \<or> last P = 47" by blast
    have 1: "endswith R key" using P(1) by (auto simp: endswith_append)
    have 2: "R = key \<or> endswith R (47 # key)"
    proof (cases "P = []")
      case True
      with P show ?thesis by simp
    next
      case False
      with P(2) have "P = butlast P @ [47]" by (metis append_butlast_last_id)
      with P(1) have "R = butlast P @ 47 # key" by (metis append.assoc append_Cons append_Nil)
      then show ?thesis by (auto simp: endswith_append)
    qed
    from 1 2 show "endswith R key \<and> (R = key \<or> endswith R (47 # key))" by simp
  qed
  with Cons.IH a show ?case by auto
qed


section \<open>The claims\<close>

text \<open>
  C1, where the code departs from the claim. For a file item with no direct and no suffix
  match, no inline content and a template reference: when opening the template raises
  \<open>FileNotFoundError\<close>, the code sets \<open>source\<close> to \<open>"template (not found)"\<close>, nothing is
  written into the file, and the path is not appended to \<open>empty_files\<close>; when reading it
  fails in any other way, \<open>source\<close> stays \<open>"empty"\<close> and the path is appended.
\<close>

theorem missing_template_is_not_listed:
  assumes "map_of arts R = None" and "suffix_match arts R = None"
  shows "(rt t = Template_not_found \<longrightarrow>
            resolve_file arts rt R None (Some t) ef
              = (\<lparr>relative_path = R, content = None, source = Template_missing\<rparr>, ef)) \<and>
         (rt t = Template_error \<longrightarrow>
            resolve_file arts rt R None (Some t) ef
              = (\<lparr>relative_path = R, content = None, source = Empty\<rparr>, ef @ [R])) \<and>
         ((\<forall>c. rt t \<noteq> Template_text c) \<longrightarrow>
            written_text (fst (resolve_file arts rt R None (Some t) ef)) = [])"
  using assms
  by (cases "rt t")
     (auto simp: resolve_file_def artifact_lookup_def fallback_content_def Let_def written_text_def)

theorem missing_template_is_not_listed_witness:
  "lists_after (create_project_from_yaml (simple_host 47 (\<lambda>t. Template_not_found)) [] []
      [File (py ''a.txt'') None (Some (py ''missing.tpl''))] \<lparr>empty_files = [], created = []\<rparr>)
     = \<lparr>empty_files = [],
        created = [\<lparr>relative_path = py ''a.txt'', content = None, source = Template_missing\<rparr>]\<rparr> \<and>
   lists_after (create_project_from_yaml (simple_host 47 (\<lambda>t. Template_error)) [] []
      [File (py ''a.txt'') None (Some (py ''missing.tpl''))] \<lparr>empty_files = [], created = []\<rparr>)
     = \<lparr>empty_files = [py ''a.txt''],
        created = [\<lparr>relative_path = py ''a.txt'', content = None, source = Empty\<rparr>]\<rparr>"
proof -
  have n: "replace_backslash (py ''a.txt'') = py ''a.txt''"
    by (simp add: replace_backslash_def py_def)
  have 1: "resolve_file [] (\<lambda>t. Template_not_found) (py ''a.txt'') None (Some (py ''missing.tpl'')) []
      = (\<lparr>relative_path = py ''a.txt'', content = None, source = Template_missing\<rparr>, [])"
    using missing_template_is_not_listed[where arts = "[]" and R = "py ''a.txt''"
        and rt = "\<lambda>t. Template_not_found" and t = "py ''missing.tpl''" and ef = "[]"]
    by simp
  have 2: "resolve_file [] (\<lambda>t. Template_error) (py ''a.txt'') None (Some (py ''missing.tpl'')) []
      = (\<lparr>relative_path = py ''a.txt'', content = None, source = Empty\<rparr>, [py ''a.txt''])"
    using missing_template_is_not_listed[where arts = "[]" and R = "py ''a.txt''"
        and rt = "\<lambda>t. Template_error" and t = "py ''missing.tpl''" and ef = "[]"]
    by simp
  show ?thesis
    by (simp add: simple_host_def lists_after_def n 1 2)
qed

text \<open>
  C2 (amended). At a valid header on line \<open>i\<close> whose opening fence is on line \<open>j\<close> and
  whose closing fence is on line \<open>k\<close>, the content recorded under the normalized path is
  the concatenation of the lines strictly between the two fences, each exactly as read
  with its own line terminator and nothing inserted between them. In particular the
  document with the header \<open>**a/b.txt**\<close> and a fence holding \<open>hello\<close> and a newline gives
  the mapping from \<open>a/b.txt\<close> to that text.
\<close>

theorem block_content_is_concatenation:
  assumes "FILE_PATH_PATTERN (py_strip (lines ! i)) = Some raw"
    and "is_valid_path (file_path_str raw)"
    and "i < j" and "j < k" and "k < length lines"
    and "CODE_BLOCK_PATTERN (py_strip (lines ! j))"
    and "\<forall>m. i < m \<and> m < j \<longrightarrow>
           \<not> CODE_BLOCK_PATTERN (py_strip (lines ! m)) \<and> FILE_PATH_PATTERN (py_strip (lines ! m)) = None"
    and "\<forall>m. j < m \<and> m < k \<longrightarrow> \<not> startswith (py_strip (lines ! m)) [96, 96, 96]"
    and "startswith (py_strip (lines ! k)) [96, 96, 96]"
  shows "scan_step lines i arts =
           (k + 1, AList.update (replace_backslash (file_path_str raw))
                     (concat (map (nth lines) [j + 1..<k])) arts) \<and>
         map_of (snd (scan_step lines i arts)) (replace_backslash (file_path_str raw))
           = Some (concat (map (nth lines) [j + 1..<k])) \<and>
         fst (extract_artifacts_from_markdown (Lines hello_doc))
           = [(py ''a/b.txt'', py ''hello\<newline>'')]"
proof -
  have st: "scan_step lines i arts =
           (k + 1, AList.update (replace_backslash (file_path_str raw))
                     (concat (map (nth lines) [j + 1..<k])) arts)"
    by (rule scan_step_block) (use assms in auto)
  have rt: "fst (extract_artifacts_from_markdown (Lines hello_doc))
           = [(py ''a/b.txt'', py ''hello\<newline>'')]"
    by (simp add: extract_artifacts_from_markdown_def hello_doc_scan)
  from st rt show ?thesis by (simp add: update_conv')
qed

theorem block_content_is_concatenation_witness:
  "scan_step hello_doc 0 [] = (4, [(py ''a/b.txt'', py ''hello\<newline>'')]) \<and>
   map_of (snd (scan_step hello_doc 0 [])) (py ''a/b.txt'') = Some (py ''hello\<newline>'')"
proof -
  have 1: "FILE_PATH_PATTERN (py_strip (hello_doc ! 0)) = Some (py ''a/b.txt'')"
    by (simp add: hello_doc_def line_defs)
  have 2: "is_valid_path (file_path_str (py ''a/b.txt''))"
    by (simp add: line_defs)
  have 3: "CODE_BLOCK_PATTERN (py_strip (hello_doc ! 1))"
    by (simp add: hello_doc_def line_defs)
  have 4: "\<forall>m. 0 < m \<and> m < (1::nat) \<longrightarrow>
     \<not> CODE_BLOCK_PATTERN (py_strip (hello_doc ! m)) \<and> FILE_PATH_PATTERN (py_strip (hello_doc ! m)) = None"
    by simp
  have 5: "\<forall>m. 1 < m \<and> m < (3::nat) \<longrightarrow> \<not> startswith (py_strip (hello_doc ! m)) [96, 96, 96]"
  proof (intro allI impI)
    fix m :: nat assume "1 < m \<and> m < 3"
    then have "m = 2" by arith
    then show "\<not> startswith (py_strip (hello_doc ! m)) [96, 96, 96]"
      by (simp add: hello_doc_def line_defs)
  qed
  have 6: "startswith (py_strip (hello_doc ! 3)) [96, 96, 96]"
    by (simp add: hello_doc_def line_defs)
  have 7: "(3::nat) < length hello_doc" by (simp add: hello_doc_def)
  have 8: "concat (map (nth hello_doc) [1 + 1..<3]) = py ''hello\<newline>''"
    by (simp add: hello_doc_def py_def upt_rec)
  have 9: "replace_backslash (file_path_str (py ''a/b.txt'')) = py ''a/b.txt''"
    by (simp add: line_defs)
  from block_content_is_concatenation[of hello_doc 0 "py ''a/b.txt''" 1 3 "[]", OF 1 2 _ _ 7 3 4 5 6]
  show ?thesis unfolding 8 9 by simp
qed

text \<open>
  C2 as stated fails: for a block of two lines, the recorded content is neither the
  lines as read joined by newlines (that doubles every line break) nor the lines without
  their terminators joined by newlines (that drops the last line break).
\<close>

theorem newline_join_counterexample:
  "map_of (scan [py ''**a/b.txt**\<newline>'', py ''```\<newline>'', py ''x\<newline>'', py ''y\<newline>'', py ''```\<newline>''] 0 [])
       (py ''a/b.txt'') = Some (py ''x\<newline>y\<newline>'') \<and>
   Some (py ''x\<newline>y\<newline>'') \<noteq> Some (newline_join [py ''x\<newline>'', py ''y\<newline>'']) \<and>
   Some (py ''x\<newline>y\<newline>'') \<noteq> Some (newline_join (map chomp [py ''x\<newline>'', py ''y\<newline>'']))"
  by (simp add: loop_simps line_defs chomp_def)

text \<open>
  C3. For a declared path \<open>R\<close> that is not a key of the mapping, the resolver reports a
  suffix match on the key \<open>K\<close> only when \<open>K\<close> is a key, \<open>R\<close> ends with \<open>K\<close>, and what precedes
  \<open>K\<close> in \<open>R\<close> is either nothing or text ending in a slash. In particular the path
  \<open>src/foo.ts\<close> does not match the key \<open>oo.ts\<close> and does match the key \<open>foo.ts\<close>.
\<close>

theorem suffix_match_respects_segments:
  assumes "map_of arts R = None"
    and "source (fst (resolve_file arts rt R item_content item_template ef)) = Artifact_matched K"
  shows "K \<in> fst ` set arts \<and>
         (\<exists>P. R = P @ K \<and> (P = [] \<or> last P = 47)) \<and>
         suffix_match [(py ''oo.ts'', v)] (py ''src/foo.ts'') = None \<and>
         suffix_match [(py ''foo.ts'', v)] (py ''src/foo.ts'') = Some (py ''foo.ts'', v)"
proof -
  from assms obtain c where "suffix_match arts R = Some (K, c)"
    by (auto simp: resolve_file_def artifact_lookup_def fallback_content_def Let_def
        split: option.splits template_read.splits)
  from suffix_match_sound[OF this]
  have "K \<in> fst ` set arts \<and> (\<exists>P. R = P @ K \<and> (P = [] \<or> last P = 47))"
    by force
  moreover have "suffix_match [(py ''oo.ts'', v)] (py ''src/foo.ts'') = None"
    by (simp add: endswith_def py_def)
  moreover have "suffix_match [(py ''foo.ts'', v)] (py ''src/foo.ts'') = Some (py ''foo.ts'', v)"
    by (simp add: endswith_def py_def)
  ultimately show ?thesis by simp
qed

theorem suffix_match_respects_segments_witness:
  "source (fst (resolve_file [(py ''oo.ts'', py ''A''), (py ''foo.ts'', py ''B'')] (\<lambda>t. Template_not_found)
      (py ''src/foo.ts'') None None [])) = Artifact_matched (py ''foo.ts'') \<and>
   py ''foo.ts'' \<in> fst ` set [(py ''oo.ts'', py ''A''), (py ''foo.ts'', py ''B'')] \<and>
   py ''src/foo.ts'' = py ''src/'' @ py ''foo.ts'' \<and> last (py ''src/'') = 47"
proof -
  let ?arts = "[(py ''oo.ts'', py ''A''), (py ''foo.ts'', py ''B'')]"
  have 1: "map_of ?arts (py ''src/foo.ts'') = None" by (simp add: py_def)
  have 2: "source (fst (resolve_file ?arts (\<lambda>t. Template_not_found) (py ''src/foo.ts'') None None []))
      = Artifact_matched (py ''foo.ts'')"
    by (simp add: resolver_defs)
  from suffix_match_respects_segments[OF 1 2]
  have "py ''foo.ts'' \<in> fst ` set ?arts" by blast
  moreover have "py ''src/foo.ts'' = py ''src/'' @ py ''foo.ts'' \<and> last (py ''src/'') = 47"
    by (simp add: py_def)
  ultimately show ?thesis using 2 by simp
qed




text \<open>
  C5. At a valid header on line \<open>i\<close>, when no line after it starts a fenced block before
  the next header candidate on line \<open>m\<close> (or before the end of the document,
  \<open>m = length lines\<close>), the loop body inserts nothing and leaves \<open>i\<close> at the next line: the
  rest of the scan is the scan from line \<open>i + 1\<close> with the same dictionary, so the lines in
  between are all visited by the outer loop.
\<close>

theorem header_without_fence_adds_nothing:
  assumes "i < length lines"
    and "FILE_PATH_PATTERN (py_strip (lines ! i)) = Some raw"
    and "is_valid_path (file_path_str raw)"
    and "i < m" and "m \<le> length lines"
    and "\<forall>n. i < n \<and> n < m \<longrightarrow> \<not> CODE_BLOCK_PATTERN (py_strip (lines ! n))"
    and "m = length lines \<or> FILE_PATH_PATTERN (py_strip (lines ! m)) \<noteq> None"
  shows "scan_step lines i arts = (i + 1, arts) \<and>
         inserted_at lines i = None \<and>
         scan lines i arts = scan lines (i + 1) arts"
proof -
  have st: "scan_step lines i a = (i + 1, a)" for a
    by (rule scan_step_no_block[where m = m]) (use assms in auto)
  from scan_unfold[OF assms(1) st] st show ?thesis
    by (simp add: inserted_at_def)
qed

theorem header_without_fence_adds_nothing_witness:
  "scan_step two_headers_doc 0 [] = (1, []) \<and>
   scan two_headers_doc 0 [] = scan two_headers_doc 1 [] \<and>
   scan two_headers_doc 0 [] = [(py ''b.txt'', py ''B\<newline>'')]"
proof -
  have 1: "(0::nat) < length two_headers_doc" by (simp add: two_headers_doc_def)
  have 2: "FILE_PATH_PATTERN (py_strip (two_headers_doc ! 0)) = Some (py ''a.txt'')"
    by (simp add: two_headers_doc_def line_defs)
  have 3: "is_valid_path (file_path_str (py ''a.txt''))"
    by (simp add: line_defs)
  have 4: "(2::nat) \<le> length two_headers_doc" by (simp add: two_headers_doc_def)
  have 5: "\<forall>n. 0 < n \<and> n < (2::nat) \<longrightarrow> \<not> CODE_BLOCK_PATTERN (py_strip (two_headers_doc ! n))"
  proof (intro allI impI)
    fix n :: nat assume "0 < n \<and> n < 2"
    then have "n = 1" by arith
    then show "\<not> CODE_BLOCK_PATTERN (py_strip (two_headers_doc ! n))"
      by (simp add: two_headers_doc_def line_defs)
  qed
  have 6: "2 = length two_headers_doc \<or> FILE_PATH_PATTERN (py_strip (two_headers_doc ! 2)) \<noteq> None"
    by (simp add: two_headers_doc_def line_defs)
  have 7: "scan two_headers_doc 1 [] = [(py ''b.txt'', py ''B\<newline>'')]"
    by (simp add: two_headers_doc_def loop_simps line_defs)
  from header_without_fence_adds_nothing[of 0 two_headers_doc "py ''a.txt''" 2 "[]", OF 1 2 3 _ 4 5 6] 7
  show ?thesis by simp
qed

text \<open>
  C6. At a bolded line whose candidate path (the header text without the version segment
  and without the description after \<open>" - "\<close>) contains no dot, no slash and no backslash,
  the loop body inserts nothing and moves to the next line, whatever follows the line; and
  that candidate is not a key of the mapping extracted from the document, since every key
  contains a dot or a slash.
\<close>

theorem invalid_header_is_rejected:
  assumes "i < length lines"
    and "FILE_PATH_PATTERN (py_strip (lines ! i)) = Some raw"
    and "46 \<notin> set (file_path_str raw)"
    and "47 \<notin> set (file_path_str raw)"
    and "92 \<notin> set (file_path_str raw)"
  shows "scan_step lines i arts = (i + 1, arts) \<and>
         inserted_at lines i = None \<and>
         scan lines i arts = scan lines (i + 1) arts \<and>
         file_path_str raw \<notin> fst ` set (fst (extract_artifacts_from_markdown (Lines lines)))"
proof -
  from assms(3-5) have nv: "\<not> is_valid_path (file_path_str raw)"
    by (simp add: is_valid_path_def)
  have st: "scan_step lines i a = (i + 1, a)" for a
    unfolding scan_step_def using assms(2) nv by simp
  have "file_path_str raw \<notin> fst ` set (scan lines 0 [])"
  proof
    assume mem: "file_path_str raw \<in> fst ` set (scan lines 0 [])"
    have "46 \<in> set (file_path_str raw) \<or> 47 \<in> set (file_path_str raw)"
      by (rule scan_keys[where Q = "\<lambda>k. 46 \<in> set k \<or> 47 \<in> set k", OF _ _ mem]) auto
    with assms(3,4) show False by simp
  qed
  with scan_unfold[OF assms(1) st] st show ?thesis
    by (simp add: inserted_at_def extract_artifacts_from_markdown_def)
qed

theorem invalid_header_is_rejected_witness:
  "FILE_PATH_PATTERN (py_strip (overview_doc ! 0)) = Some (py ''Overview'') \<and>
   CODE_BLOCK_PATTERN (py_strip (overview_doc ! 1)) \<and>
   scan_step overview_doc 0 [] = (1, []) \<and>
   py ''Overview'' \<notin> fst ` set (fst (extract_artifacts_from_markdown (Lines overview_doc))) \<and>
   fst (extract_artifacts_from_markdown (Lines overview_doc)) = []"
proof -
  have 1: "(0::nat) < length overview_doc" by (simp add: overview_doc_def)
  have 2: "FILE_PATH_PATTERN (py_strip (overview_doc ! 0)) = Some (py ''Overview'')"
    by (simp add: overview_doc_def line_defs)
  have 3: "file_path_str (py ''Overview'') = py ''Overview''"
    by (simp add: line_defs)
  have 4: "46 \<notin> set (py ''Overview'')" "47 \<notin> set (py ''Overview'')" "92 \<notin> set (py ''Overview'')"
    by (simp_all add: py_def)
  have 5: "CODE_BLOCK_PATTERN (py_strip (overview_doc ! 1))"
    by (simp add: overview_doc_def line_defs)
  have 6: "fst (extract_artifacts_from_markdown (Lines overview_doc)) = []"
    by (simp add: extract_artifacts_from_markdown_def overview_doc_def loop_simps line_defs)
  from invalid_header_is_rejected[of 0 overview_doc "py ''Overview''" "[]", OF 1 2] 3 4
  have "scan_step overview_doc 0 [] = (1, []) \<and>
    py ''Overview'' \<notin> fst ` set (fst (extract_artifacts_from_markdown (Lines overview_doc)))"
    by simp
  with 2 5 6 show ?thesis by simp
qed



text \<open>
  C8. When the document cannot be opened or read, whether the file is missing or the read
  fails in another way, the extractor returns the empty dictionary with one error message
  instead of raising; with a structure file present, \<open>main\<close> goes on, and a file that
  declares its content is resolved from that content.
\<close>

theorem unreadable_document_gives_empty_mapping:
  "extract_artifacts_from_markdown FileNotFoundError = ([], [Markdown_not_found]) \<and>
   extract_artifacts_from_markdown OtherReadError = ([], [Markdown_read_error]) \<and>
   \<not> nothing_to_do (fst (extract_artifacts_from_markdown FileNotFoundError)) True \<and>
   \<not> nothing_to_do (fst (extract_artifacts_from_markdown OtherReadError)) True \<and>
   resolve_file (fst (extract_artifacts_from_markdown FileNotFoundError)) rt R (Some c) tmpl ef
     = (\<lparr>relative_path = R, content = Some c, source = YAML_content\<rparr>, ef)"
  by (simp add: extract_artifacts_from_markdown_def nothing_to_do_def resolve_file_def
      artifact_lookup_def fallback_content_def)

text \<open>
  C9. At a valid header on line \<open>i\<close> whose opening fence is on line \<open>j\<close>, when no later
  line closes the fence, the content is all the remaining lines of the document, the
  artifact is inserted all the same, and the scan ends there: the dictionary with this
  entry is the final mapping.
\<close>

theorem unclosed_fence_takes_the_rest:
  assumes "FILE_PATH_PATTERN (py_strip (lines ! i)) = Some raw"
    and "is_valid_path (file_path_str raw)"
    and "i < j" and "j < length lines"
    and "CODE_BLOCK_PATTERN (py_strip (lines ! j))"
    and "\<forall>m. i < m \<and> m < j \<longrightarrow>
           \<not> CODE_BLOCK_PATTERN (py_strip (lines ! m)) \<and> FILE_PATH_PATTERN (py_strip (lines ! m)) = None"
    and "\<forall>m. j < m \<and> m < length lines \<longrightarrow> \<not> startswith (py_strip (lines ! m)) [96, 96, 96]"
  shows "scan_step lines i arts =
           (length lines + 1,
            AList.update (replace_backslash (file_path_str raw)) (concat (drop (j + 1) lines)) arts) \<and>
         scan lines i arts =
            AList.update (replace_backslash (file_path_str raw)) (concat (drop (j + 1) lines)) arts \<and>
         map_of (scan lines i arts) (replace_backslash (file_path_str raw))
           = Some (concat (drop (j + 1) lines))"
proof -
  have st: "scan_step lines i arts =
           (length lines + 1, AList.update (replace_backslash (file_path_str raw))
                     (concat (map (nth lines) [j + 1..<length lines])) arts)"
    by (rule scan_step_block) (use assms in auto)
  have i: "i < length lines" using assms(3,4) by simp
  have "scan lines i arts = scan lines (length lines + 1)
          (AList.update (replace_backslash (file_path_str raw))
                     (concat (map (nth lines) [j + 1..<length lines])) arts)"
    by (rule scan_unfold[OF i st])
  then have "scan lines i arts = AList.update (replace_backslash (file_path_str raw))
                     (concat (map (nth lines) [j + 1..<length lines])) arts"
    by (simp add: scan_done)
  with st show ?thesis by (simp add: map_nth_from update_conv')
qed

theorem unclosed_fence_takes_the_rest_witness:
  "scan_step unclosed_doc 0 [] = (5, [(py ''a.txt'', py ''x\<newline>y'')]) \<and>
   fst (extract_artifacts_from_markdown (Lines unclosed_doc)) = [(py ''a.txt'', py ''x\<newline>y'')]"
proof -
  have 1: "FILE_PATH_PATTERN (py_strip (unclosed_doc ! 0)) = Some (py ''a.txt'')"
    by (simp add: unclosed_doc_def line_defs)
  have 2: "is_valid_path (file_path_str (py ''a.txt''))"
    by (simp add: line_defs)
  have 3: "(1::nat) < length unclosed_doc" by (simp add: unclosed_doc_def)
  have 4: "CODE_BLOCK_PATTERN (py_strip (unclosed_doc ! 1))"
    by (simp add: unclosed_doc_def line_defs)
  have 5: "\<forall>m. 0 < m \<and> m < (1::nat) \<longrightarrow>
     \<not> CODE_BLOCK_PATTERN (py_strip (unclosed_doc ! m)) \<and> FILE_PATH_PATTERN (py_strip (unclosed_doc ! m)) = None"
    by simp
  have 6: "\<forall>m. 1 < m \<and> m < length unclosed_doc \<longrightarrow> \<not> startswith (py_strip (unclosed_doc ! m)) [96, 96, 96]"
  proof (intro allI impI)
    fix m :: nat assume "1 < m \<and> m < length unclosed_doc"
    then have "m = 2 \<or> m = 3" by (auto simp: unclosed_doc_def)
    then show "\<not> startswith (py_strip (unclosed_doc ! m)) [96, 96, 96]"
      by (auto simp: unclosed_doc_def line_defs)
  qed
  have 7: "replace_backslash (file_path_str (py ''a.txt'')) = py ''a.txt''"
    by (simp add: line_defs)
  have 8: "concat (drop (1 + 1) unclosed_doc) = py ''x\<newline>y''"
    by (simp add: unclosed_doc_def py_def)
  have 9: "length unclosed_doc + 1 = 5" by (simp add: unclosed_doc_def)
  from unclosed_fence_takes_the_rest[of unclosed_doc 0 "py ''a.txt''" 1 "[]", OF 1 2 _ 3 4 5 6]
  show ?thesis unfolding 7 8 9 by (simp add: extract_artifacts_from_markdown_def)
qed



end
